theory Spec2Isabelle
  imports Main "HOL-Library.Word"
begin

section \<open>JavaScript strings\<close>

text \<open>
  A JavaScript string is a sequence of 16-bit code units. \<open>str\<close> writes an ASCII
  literal of the source as such a sequence.
\<close>

type_synonym js_string = "16 word list"

definition str :: "string \<Rightarrow> js_string" where
  "str s = map of_char s"

text \<open>
  \<^verbatim>\<open>s.indexOf(pat, pos)\<close>: the smallest index \<open>k \<ge> pos\<close> at which \<open>pat\<close> occurs in
  \<open>s\<close>, or \<open>-1\<close>. The position is clamped to the length of \<open>s\<close>. \<open>search\<close> walks the rest
  of the string, \<open>k\<close> being the index of its first code unit.
\<close>

definition starts_with :: "'a list \<Rightarrow> 'a list \<Rightarrow> bool" where
  "starts_with s pat = (take (length pat) s = pat)"

fun search :: "'a list \<Rightarrow> 'a list \<Rightarrow> nat \<Rightarrow> int" where
  "search pat [] k = (if pat = [] then int k else - 1)"
| "search pat (c # cs) k =
     (if starts_with (c # cs) pat then int k else search pat cs (Suc k))"

definition indexOf :: "'a list \<Rightarrow> 'a list \<Rightarrow> nat \<Rightarrow> int" where
  "indexOf s pat pos =
     (let p = min pos (length s) in search pat (drop p s) p)"

text \<open>\<^verbatim>\<open>s.includes(pat)\<close> (\<open>includes\<close> alone is a keyword of Isabelle).\<close>

definition includes_str :: "'a list \<Rightarrow> 'a list \<Rightarrow> bool" where
  "includes_str s pat = (indexOf s pat 0 \<noteq> - 1)"

text \<open>
  \<^verbatim>\<open>s.substring(a, b)\<close>: both arguments are clamped to \<open>0 .. length s\<close> and swapped
  when the first is the larger one.
\<close>

definition clamp_index :: "'a list \<Rightarrow> int \<Rightarrow> nat" where
  "clamp_index s i = min (nat i) (length s)"

definition substring :: "'a list \<Rightarrow> int \<Rightarrow> int \<Rightarrow> 'a list" where
  "substring s a b =
     (let a' = clamp_index s a; b' = clamp_index s b;
          lo = min a' b'; hi = max a' b'
      in take (hi - lo) (drop lo s))"

text \<open>
  \<^verbatim>\<open>s.trim()\<close> removes the code units of ECMAScript's WhiteSpace and LineTerminator
  productions from both ends.
\<close>

definition white_space :: "16 word list" where
  "white_space =
     [0x0009, 0x000A, 0x000B, 0x000C, 0x000D, 0x0020, 0x00A0, 0x1680,
      0x2000, 0x2001, 0x2002, 0x2003, 0x2004, 0x2005, 0x2006, 0x2007,
      0x2008, 0x2009, 0x200A, 0x2028, 0x2029, 0x202F, 0x205F, 0x3000, 0xFEFF]"

definition is_white_space :: "16 word \<Rightarrow> bool" where
  "is_white_space c = (c \<in> set white_space)"

definition trim :: "js_string \<Rightarrow> js_string" where
  "trim s = rev (dropWhile is_white_space (rev (dropWhile is_white_space s)))"

text \<open>
  \<^verbatim>\<open>s.split(sep)\<close> for a separator of one code unit: the segments between the
  separators, at least one, \<^verbatim>\<open>''.split('#')\<close> being \<^verbatim>\<open>['']\<close>.
\<close>

fun split :: "'a \<Rightarrow> 'a list \<Rightarrow> 'a list list" where
  "split sep [] = [] # []"
| "split sep (c # cs) =
     (if c = sep then [] # split sep cs
      else (case split sep cs of
              [] \<Rightarrow> [c] # []
            | seg # segs \<Rightarrow> (c # seg) # segs))"

text \<open>\<^verbatim>\<open>xs[i]\<close> on an array: \<^verbatim>\<open>undefined\<close> out of range.\<close>

definition at_index :: "'a list \<Rightarrow> nat \<Rightarrow> 'a option" where
  "at_index xs i = (if i < length xs then Some (xs ! i) else None)"

text \<open>
  Truthiness of a value that is a string or \<^verbatim>\<open>undefined\<close>: \<^verbatim>\<open>undefined\<close> and the
  empty string are falsy.
\<close>

fun truthy :: "js_string option \<Rightarrow> bool" where
  "truthy None = False"
| "truthy (Some s) = (s \<noteq> [])"

section \<open>Link extraction (bot.js, lines 33 to 40)\<close>

definition prefix :: js_string where
  "prefix = str ''https://listmoz.com/#''"

definition hash :: "16 word" where
  "hash = of_char CHR ''#''"

definition space :: "16 word" where
  "space = of_char CHR '' ''"

text \<open>Lines 36 to 38: the candidate link, \<^verbatim>\<open>fullUrl\<close>.\<close>

definition candidate_link :: "js_string \<Rightarrow> js_string" where
  "candidate_link body =
     (let startIdx = indexOf body prefix 0;
          endIdx = indexOf body [space] (nat startIdx)
      in trim (substring body startIdx
                 (if endIdx = - 1 then int (length body) else endIdx)))"

text \<open>
  Lines 33 to 40: \<open>None\<close> where the handler returns, the link and the identifier
  (\<^verbatim>\<open>fullUrl\<close>, \<^verbatim>\<open>modUrl\<close>) where it goes on.
\<close>

definition extract_link :: "js_string \<Rightarrow> (js_string \<times> js_string) option" where
  "extract_link body =
     (if \<not> includes_str body prefix then None
      else
        let fullUrl = candidate_link body;
            modUrl = at_index (split hash fullUrl) 1
        in if \<not> truthy modUrl then None
           else (case modUrl of None \<Rightarrow> None | Some m \<Rightarrow> Some (fullUrl, m)))"

section \<open>Messages, configuration and the outside world\<close>

text \<open>
  The configuration read at start-up (\<^verbatim>\<open>TARGET_CHAT\<close>, \<^verbatim>\<open>ITEM\<close>), the fields of an
  inbound message the handler reads (\<open>from_id\<close> is \<^verbatim>\<open>msg.from\<close>, \<open>from\<close> being a keyword
  of Isabelle), and the chat that \<^verbatim>\<open>msg.getChat()\<close> resolves to.
\<close>

record config =
  TARGET_CHAT :: js_string
  ITEM :: js_string

record message =
  from_id :: js_string
  body :: js_string

record chat =
  name :: js_string

text \<open>
  The body of a lookup response: \<^verbatim>\<open>read_url\<close> and \<^verbatim>\<open>items\<close> are optional, \<open>None\<close> being
  an absent field (\<^verbatim>\<open>undefined\<close>).
\<close>

record item =
  description :: js_string

record fetch_data =
  read_url :: "js_string option"
  items :: "item list option"

text \<open>The body of the submission call, field by field.\<close>

record payload =
  p_description :: js_string
  p_force_creation_of_new_list :: bool
  p_mod_url :: js_string
  p_read_url :: "js_string option"

text \<open>
  What can be thrown: a failure of the chat client or of an HTTP call, carrying its
  message, and the error \<open>waitForValidFetch\<close> throws itself, carrying \<open>maxRetries\<close>.
\<close>

datatype error =
  ClientError js_string
| HttpError js_string
| RetriesExhausted nat

text \<open>
  One run of the handler meets the outside world through three calls. Their
  outcomes are the run's environment: the outcome of \<^verbatim>\<open>msg.getChat()\<close>, of the
  \<open>i\<close>-th \<^verbatim>\<open>axios.get\<close> of the run (counted from 0; \<open>Inl\<close> when the call throws or
  \<^verbatim>\<open>res.data\<close> cannot be read), and of \<^verbatim>\<open>axios.post\<close>.
\<close>

record world =
  getChat :: "error + chat"
  axios_get :: "nat \<Rightarrow> error + fetch_data"
  axios_post :: "error + unit"

text \<open>The lines written to the console.\<close>

datatype log_line =
  Info_new_link
| Info_mod_url js_string
| Warning_retrying nat
| Error_lookup error
| Warning_skipped js_string
| Info_successful js_string js_string
| Error_enrollment_failed error

text \<open>
  What a run does, in order: the calls it makes with their arguments, the delays
  it waits (in milliseconds) and the lines it logs.
\<close>

datatype event =
  GetChat
| Get js_string
| Delay nat
| Post js_string payload
| Log log_line

text \<open>How the promise of an \<^verbatim>\<open>async\<close> function settles.\<close>

datatype 'a settled = Resolved 'a | Rejected error

section \<open>The poll loop (bot.js, lines 74 to 89)\<close>

definition fetch_url :: "js_string \<Rightarrow> js_string" where
  "fetch_url modUrl = str ''https://listmoz.com/actions?action=FETCH&mod_url='' @ modUrl"

text \<open>
  The \<^verbatim>\<open>for\<close> loop from index \<open>i\<close> on. A response whose \<^verbatim>\<open>read_url\<close> is truthy is
  returned; another response and a failed call are logged, each followed by the
  delay; after the loop the function throws.
\<close>

function poll :: "world \<Rightarrow> js_string \<Rightarrow> nat \<Rightarrow> nat \<Rightarrow> fetch_data settled \<times> event list" where
  "poll w modUrl maxRetries i =
     (if i < maxRetries then
        (case axios_get w i of
           Inr data \<Rightarrow>
             if truthy (read_url data) then (Resolved data, [Get (fetch_url modUrl)])
             else
               (let (r, tr) = poll w modUrl maxRetries (Suc i)
                in (r, [Get (fetch_url modUrl), Log (Warning_retrying (i + 1)), Delay 30000] @ tr))
         | Inl err \<Rightarrow>
             (let (r, tr) = poll w modUrl maxRetries (Suc i)
              in (r, [Get (fetch_url modUrl), Log (Error_lookup err), Delay 30000] @ tr)))
      else (Rejected (RetriesExhausted maxRetries), []))"
  by pat_completeness auto
termination
  by (relation "measure (\<lambda>(w, modUrl, maxRetries, i). maxRetries - i)") auto

definition waitForValidFetch :: "world \<Rightarrow> js_string \<Rightarrow> nat \<Rightarrow> fetch_data settled \<times> event list" where
  "waitForValidFetch w modUrl maxRetries = poll w modUrl maxRetries 0"

text \<open>The default of the parameter \<^verbatim>\<open>maxRetries\<close>.\<close>

definition default_maxRetries :: nat where
  "default_maxRetries = 100"

section \<open>The message handler (bot.js, lines 26 to 70)\<close>

definition add_url :: js_string where
  "add_url = str ''https://listmoz.com/actions?action=ADD''"

text \<open>
  Line 47: \<^verbatim>\<open>items\<close> defaults to the empty array when the field is absent.
\<close>

definition item_list :: "fetch_data \<Rightarrow> item list" where
  "item_list fetchRes = (case items fetchRes of None \<Rightarrow> [] | Some xs \<Rightarrow> xs)"

text \<open>
  Lines 47 to 66, inside the \<^verbatim>\<open>try\<close>: the check for an existing entry and the
  submission.
\<close>

definition submit :: "config \<Rightarrow> world \<Rightarrow> js_string \<Rightarrow> js_string \<Rightarrow> fetch_data \<Rightarrow> unit settled \<times> event list" where
  "submit cfg w fullUrl modUrl fetchRes =
     (let alreadyExists = list_ex (\<lambda>e. description e = ITEM cfg) (item_list fetchRes)
      in if alreadyExists then (Resolved (), [Log (Warning_skipped (ITEM cfg))])
         else
           (let payload = \<lparr>p_description = ITEM cfg,
                            p_force_creation_of_new_list = False,
                            p_mod_url = modUrl,
                            p_read_url = read_url fetchRes\<rparr>
            in (case axios_post w of
                  Inl err \<Rightarrow> (Rejected err, [Post add_url payload])
                | Inr _ \<Rightarrow>
                    (Resolved (),
                     [Post add_url payload, Log (Info_successful (ITEM cfg) fullUrl)]))))"

text \<open>Lines 45 to 69: the \<^verbatim>\<open>try\<close> block and its \<^verbatim>\<open>catch\<close>, which logs what was thrown.\<close>

definition enroll :: "config \<Rightarrow> world \<Rightarrow> js_string \<Rightarrow> js_string \<Rightarrow> unit settled \<times> event list" where
  "enroll cfg w fullUrl modUrl =
     (let (r, tr) =
            (case waitForValidFetch w modUrl default_maxRetries of
               (Rejected err, tr1) \<Rightarrow> (Rejected err, tr1)
             | (Resolved fetchRes, tr1) \<Rightarrow>
                 (let (r2, tr2) = submit cfg w fullUrl modUrl fetchRes in (r2, tr1 @ tr2)))
      in (case r of
            Rejected err \<Rightarrow> (Resolved (), tr @ [Log (Error_enrollment_failed err)])
          | Resolved _ \<Rightarrow> (Resolved (), tr)))"

text \<open>The handler: the three filters, the extraction, the two log lines, the enrollment.\<close>

definition handler :: "config \<Rightarrow> world \<Rightarrow> message \<Rightarrow> unit settled \<times> event list" where
  "handler cfg w msg =
     (if \<not> includes_str (from_id msg) (str ''@g.us'') then (Resolved (), [])
      else
        (case getChat w of
           Inl err \<Rightarrow> (Rejected err, [GetChat])
         | Inr chat \<Rightarrow>
             if name chat \<noteq> TARGET_CHAT cfg then (Resolved (), [GetChat])
             else
               (case extract_link (body msg) of
                  None \<Rightarrow> (Resolved (), [GetChat])
                | Some (fullUrl, modUrl) \<Rightarrow>
                    (let (r, tr) = enroll cfg w fullUrl modUrl
                     in (r, [GetChat, Log Info_new_link, Log (Info_mod_url modUrl)] @ tr)))))"

text \<open>Projections of a trace: the lookup calls and the submission calls.\<close>

fun lookups :: "event list \<Rightarrow> js_string list" where
  "lookups [] = []"
| "lookups (Get url # es) = url # lookups es"
| "lookups (_ # es) = lookups es"

fun submissions :: "event list \<Rightarrow> (js_string \<times> payload) list" where
  "submissions [] = []"
| "submissions (Post url p # es) = (url, p) # submissions es"
| "submissions (_ # es) = submissions es"

section \<open>Notions used to state the properties\<close>

text \<open>
  A lookup outcome ends the polling when the call returned and the \<^verbatim>\<open>read_url\<close> of
  its response is truthy (line 80); a failed call and a response without a
  \<^verbatim>\<open>read_url\<close> or with an empty one do not.
\<close>

fun ready :: "error + fetch_data \<Rightarrow> bool" where
  "ready (Inl err) = False"
| "ready (Inr data) = truthy (read_url data)"

text \<open>
  A message is in scope when it passes the three filters and a link with its
  identifier is extracted from it.
\<close>

definition in_scope :: "config \<Rightarrow> world \<Rightarrow> message \<Rightarrow> js_string \<Rightarrow> js_string \<Rightarrow> bool" where
  "in_scope cfg w msg fullUrl modUrl =
     (includes_str (from_id msg) (str ''@g.us'')
      \<and> (case getChat w of Inl err \<Rightarrow> False | Inr c \<Rightarrow> name c = TARGET_CHAT cfg)
      \<and> extract_link (body msg) = Some (fullUrl, modUrl))"


section \<open>Example runs\<close>

definition cfg0 :: config where
  "cfg0 = \<lparr>TARGET_CHAT = str ''Hali Saha'', ITEM = str ''Furkan''\<rparr>"

definition chat0 :: chat where
  "chat0 = \<lparr>name = str ''Hali Saha''\<rparr>"

definition msg0 :: message where
  "msg0 = \<lparr>from_id = str ''120363041234567890@g.us'',
           body = str ''check this out https://listmoz.com/#abc123 thanks''\<rparr>"

definition msg_private :: message where
  "msg_private = \<lparr>from_id = str ''905551112233@c.us'',
                  body = str ''check this out https://listmoz.com/#abc123 thanks''\<rparr>"

definition msg_no_fragment :: message where
  "msg_no_fragment = \<lparr>from_id = str ''120363041234567890@g.us'',
                      body = str ''new list https://listmoz.com/# soon''\<rparr>"


definition not_ready_data :: fetch_data where
  "not_ready_data = \<lparr>read_url = Some [], items = None\<rparr>"

definition ready_data :: fetch_data where
  "ready_data = \<lparr>read_url = Some (str ''https://listmoz.com/#r1''),
                 items = Some [\<lparr>description = str ''Ali''\<rparr>]\<rparr>"

definition enrolled_data :: fetch_data where
  "enrolled_data = \<lparr>read_url = Some (str ''https://listmoz.com/#r1''),
                    items = Some [\<lparr>description = str ''Ali''\<rparr>, \<lparr>description = str ''Furkan''\<rparr>]\<rparr>"

definition bare_data :: fetch_data where
  "bare_data = \<lparr>read_url = Some (str ''https://listmoz.com/#r1''), items = None\<rparr>"

text \<open>Every lookup fails, by turns with an error and with a response without \<^verbatim>\<open>read_url\<close>.\<close>

definition w_never :: world where
  "w_never = \<lparr>getChat = Inr chat0,
              axios_get = (\<lambda>i. if even i then Inl (HttpError (str ''timeout''))
                                else Inr \<lparr>read_url = None, items = None\<rparr>),
              axios_post = Inr ()\<rparr>"

text \<open>The third lookup is the first with a \<^verbatim>\<open>read_url\<close>.\<close>

definition w_third :: world where
  "w_third = \<lparr>getChat = Inr chat0,
              axios_get = (\<lambda>i. if i < 2 then Inr not_ready_data else Inr ready_data),
              axios_post = Inr ()\<rparr>"

definition w_new :: world where
  "w_new = \<lparr>getChat = Inr chat0,
            axios_get = (\<lambda>i. if i < 1 then Inl (HttpError (str ''timeout'')) else Inr ready_data),
            axios_post = Inr ()\<rparr>"

definition w_enrolled :: world where
  "w_enrolled = \<lparr>getChat = Inr chat0, axios_get = (\<lambda>i. Inr enrolled_data), axios_post = Inr ()\<rparr>"

definition w_bare :: world where
  "w_bare = \<lparr>getChat = Inr chat0, axios_get = (\<lambda>i. Inr bare_data), axios_post = Inr ()\<rparr>"

definition w_post_fails :: world where
  "w_post_fails = \<lparr>getChat = Inr chat0, axios_get = (\<lambda>i. Inr ready_data),
                   axios_post = Inl (HttpError (str ''Request failed with status code 500''))\<rparr>"

definition w_chat_fails :: world where
  "w_chat_fails = \<lparr>getChat = Inl (ClientError (str ''Evaluation failed'')),
                   axios_get = (\<lambda>i. Inr ready_data), axios_post = Inr ()\<rparr>"

section \<open>Facts about the string operations\<close>

text \<open>
  \<open>search\<close> finds an occurrence when there is one, and then the first one.
\<close>

lemma search_hit:
  "starts_with (drop j s) pat \<Longrightarrow> j \<le> length s \<Longrightarrow> search pat s k \<noteq> - 1"
proof (induction s arbitrary: j k)
  case Nil
  then show ?case by (simp add: starts_with_def)
next
  case (Cons c cs)
  show ?case
  proof (cases j)
    case 0
    with Cons.prems show ?thesis by simp
  next
    case (Suc j')
    with Cons.prems have "search pat cs (Suc k) \<noteq> - 1"
      using Cons.IH [of j' "Suc k"] by simp
    moreover have "int k \<noteq> - 1" by simp
    ultimately show ?thesis by simp
  qed
qed

lemma search_first:
  "(\<forall>j<length pre. \<not> starts_with (drop j (pre @ t)) pat) \<Longrightarrow> starts_with t pat
   \<Longrightarrow> search pat (pre @ t) k = int (k + length pre)"
proof (induction pre arbitrary: k)
  case Nil
  then show ?case by (cases t) (auto simp: starts_with_def)
next
  case (Cons c cs)
  from Cons.prems(1) have "\<not> starts_with (c # cs @ t) pat"
    by (metis append_Cons drop0 length_greater_0_conv list.distinct(1))
  moreover have "\<forall>j<length cs. \<not> starts_with (drop j (cs @ t)) pat"
  proof (intro allI impI)
    fix j assume "j < length cs"
    then have "Suc j < length (c # cs)" by simp
    with Cons.prems(1) have "\<not> starts_with (drop (Suc j) ((c # cs) @ t)) pat" by blast
    then show "\<not> starts_with (drop j (cs @ t)) pat" by simp
  qed
  ultimately show ?case using Cons.IH [of "Suc k"] Cons.prems(2) by simp
qed


lemma search_unit_hit:
  "c \<notin> set xs \<Longrightarrow> search [c] (xs @ c # ys) k = int (k + length xs)"
  by (induction xs arbitrary: k) (auto simp: starts_with_def)


lemma indexOf_first:
  assumes "\<forall>j<length pre. \<not> starts_with (drop j (pre @ pat @ rest)) pat"
  shows "indexOf (pre @ pat @ rest) pat 0 = int (length pre)"
proof -
  have "starts_with (pat @ rest) pat" by (simp add: starts_with_def)
  with assms have "search pat (pre @ pat @ rest) 0 = int (0 + length pre)"
    by (rule search_first)
  then show ?thesis by (simp add: indexOf_def)
qed

lemma includes_first:
  assumes "\<forall>j<length pre. \<not> starts_with (drop j (pre @ pat @ rest)) pat"
  shows "includes_str (pre @ pat @ rest) pat"
  using indexOf_first [OF assms] by (simp add: includes_str_def)


text \<open>
  \<open>split\<close> on a string without the separator, and at the first separator.
\<close>

lemma split_no_sep: "sep \<notin> set xs \<Longrightarrow> split sep xs = [xs]"
  by (induction xs) auto

lemma split_first: "sep \<notin> set xs \<Longrightarrow> split sep (xs @ sep # ys) = xs # split sep ys"
  by (induction xs) auto

text \<open>
  \<open>trim\<close> leaves a string alone whose first and last code units are no white space.
\<close>

lemma trim_clean:
  "s \<noteq> [] \<Longrightarrow> \<not> is_white_space (hd s) \<Longrightarrow> \<not> is_white_space (last s) \<Longrightarrow> trim s = s"
proof -
  assume s: "s \<noteq> []" "\<not> is_white_space (hd s)" "\<not> is_white_space (last s)"
  then have "dropWhile is_white_space s = s" by (cases s) auto
  moreover have "dropWhile is_white_space (rev s) = rev s"
    using s by (cases "rev s") (auto simp: hd_rev)
  ultimately show ?thesis by (simp add: trim_def)
qed

section \<open>Facts about the prefix\<close>

text \<open>
  The prefix has 21 code units, ends with its only \<open>#\<close>, contains no space, and its
  first code unit \<open>h\<close> (104) occurs nowhere else in it: two occurrences of the prefix
  in a string never overlap.
\<close>

lemma prefix_length: "length prefix = 21"
  by (simp add: prefix_def str_def)

lemma prefix_split: "prefix = str ''https://listmoz.com/'' @ [hash]"
  by (simp add: prefix_def str_def hash_def)

lemma hash_not_in_base: "hash \<notin> set (str ''https://listmoz.com/'')"
  by (simp add: str_def hash_def)

lemma space_not_in_prefix: "space \<notin> set prefix"
  by (simp add: prefix_def str_def space_def)

lemma prefix_hd: "prefix = 104 # tl prefix"
  by (simp add: prefix_def str_def)

lemma prefix_tl_no_h: "104 \<notin> set (tl prefix)"
  by (simp add: prefix_def str_def)

lemma not_ws_h: "\<not> is_white_space 104"
  by (simp add: is_white_space_def white_space_def)

lemma prefix_nth_distinct: "0 < m \<Longrightarrow> m < length prefix \<Longrightarrow> prefix ! m \<noteq> 104"
proof -
  assume m: "0 < m" "m < length prefix"
  then obtain m' where m': "m = Suc m'" by (cases m) auto
  have "prefix ! m = (104 # tl prefix) ! m" using prefix_hd by simp
  also have "\<dots> = tl prefix ! m'" using m' by simp
  finally have "prefix ! m = tl prefix ! m'" .
  moreover have "m' < length (tl prefix)" using m m' by simp
  ultimately have "prefix ! m \<in> set (tl prefix)" by simp
  with prefix_tl_no_h show ?thesis by auto
qed

lemma prefix_no_overlap:
  assumes "\<not> includes_str pre prefix" and "j < length pre"
  shows "\<not> starts_with (drop j (pre @ prefix @ rest)) prefix"
proof
  assume a: "starts_with (drop j (pre @ prefix @ rest)) prefix"
  define u where "u = drop j pre"
  have u: "u \<noteq> []" using assms(2) by (simp add: u_def)
  from a assms(2) have eq: "take 21 (u @ prefix @ rest) = prefix"
    by (simp add: starts_with_def u_def prefix_length)
  show False
  proof (cases "21 \<le> length u")
    case True
    with eq have "take (length prefix) u = prefix" by (simp add: prefix_length)
    then have "starts_with (drop j pre) prefix" by (simp add: starts_with_def u_def)
    then have "search prefix pre 0 \<noteq> - 1"
      using search_hit [of j pre prefix 0] assms(2) by simp
    with assms(1) show False by (simp add: includes_str_def indexOf_def)
  next
    case False
    then have m: "length u < 21" by simp
    have "prefix ! length u = take 21 (u @ prefix @ rest) ! length u" using eq by simp
    also have "\<dots> = (u @ prefix @ rest) ! length u" using m by (simp only: nth_take)
    also have "\<dots> = (prefix @ rest) ! 0" by (simp add: nth_append)
    also have "\<dots> = 104" by (subst prefix_hd) simp
    finally have "prefix ! length u = 104" .
    moreover have "prefix ! length u \<noteq> 104"
      using prefix_nth_distinct [of "length u"] u m by (simp add: prefix_length)
    ultimately show False by blast
  qed
qed

lemma split_prefix: "hash \<notin> set t \<Longrightarrow> split hash (prefix @ t) = [str ''https://listmoz.com/'', t]"
proof -
  assume t: "hash \<notin> set t"
  have "split hash (str ''https://listmoz.com/'' @ hash # t) = str ''https://listmoz.com/'' # split hash t"
    using hash_not_in_base by (rule split_first)
  with t show ?thesis by (simp add: prefix_split split_no_sep)
qed

section \<open>Facts about the candidate link\<close>

text \<open>
  With the first occurrence of the prefix at the end of \<open>pre\<close>, the candidate link is
  the prefix and what follows it up to the first space, or up to the end of the body
  when no space follows, trimmed.
\<close>

lemma candidate_link_space:
  assumes first: "\<forall>j<length pre. \<not> starts_with (drop j (pre @ prefix @ t @ space # rest)) prefix"
    and t: "space \<notin> set t"
  shows "candidate_link (pre @ prefix @ t @ space # rest) = trim (prefix @ t)"
proof -
  let ?body = "pre @ prefix @ t @ space # rest"
  have start: "indexOf ?body prefix 0 = int (length pre)"
    using first by (rule indexOf_first)
  have "space \<notin> set (prefix @ t)" using t space_not_in_prefix by simp
  then have "search [space] ((prefix @ t) @ space # rest) (length pre)
             = int (length pre + length (prefix @ t))"
    by (rule search_unit_hit)
  then have stop: "indexOf ?body [space] (length pre) = int (length pre + length (prefix @ t))"
    by (simp add: indexOf_def)
  have "substring ?body (int (length pre)) (int (length pre + length (prefix @ t))) = prefix @ t"
    by (simp add: substring_def clamp_index_def)
  with start stop show ?thesis by (simp add: candidate_link_def)
qed



lemma extract_scenario:
  "extract_link (str ''check this out https://listmoz.com/#abc123 thanks'')
   = Some (str ''https://listmoz.com/#abc123'', str ''abc123'')"
  by code_simp

section \<open>Facts about the poll loop\<close>

declare poll.simps [simp del]

text \<open>
  One turn of the loop, case by case.
\<close>

lemma poll_stop: "\<not> i < maxRetries \<Longrightarrow> poll w modUrl maxRetries i = (Rejected (RetriesExhausted maxRetries), [])"
  by (subst poll.simps) simp

lemma poll_hit:
  "i < maxRetries \<Longrightarrow> axios_get w i = Inr d \<Longrightarrow> truthy (read_url d) \<Longrightarrow>
   poll w modUrl maxRetries i = (Resolved d, [Get (fetch_url modUrl)])"
  by (subst poll.simps) simp

lemma poll_retry:
  "i < maxRetries \<Longrightarrow> axios_get w i = Inr d \<Longrightarrow> \<not> truthy (read_url d) \<Longrightarrow>
   poll w modUrl maxRetries i =
     (fst (poll w modUrl maxRetries (Suc i)),
      [Get (fetch_url modUrl), Log (Warning_retrying (i + 1)), Delay 30000]
      @ snd (poll w modUrl maxRetries (Suc i)))"
  by (subst poll.simps) (simp add: case_prod_beta)

lemma poll_error:
  "i < maxRetries \<Longrightarrow> axios_get w i = Inl err \<Longrightarrow>
   poll w modUrl maxRetries i =
     (fst (poll w modUrl maxRetries (Suc i)),
      [Get (fetch_url modUrl), Log (Error_lookup err), Delay 30000]
      @ snd (poll w modUrl maxRetries (Suc i)))"
  by (subst poll.simps) (simp add: case_prod_beta)

text \<open>
  The loop from index \<open>i\<close> on, when no remaining attempt is ready, when the attempt \<open>n\<close>
  is the first ready one, and when the attempts before \<open>n\<close> are responses without a
  \<^verbatim>\<open>read_url\<close>.
\<close>

lemma poll_exhausted:
  "(\<forall>k. i \<le> k \<and> k < maxRetries \<longrightarrow> \<not> ready (axios_get w k)) \<Longrightarrow>
   fst (poll w modUrl maxRetries i) = Rejected (RetriesExhausted maxRetries)
   \<and> lookups (snd (poll w modUrl maxRetries i)) = replicate (maxRetries - i) (fetch_url modUrl)
   \<and> submissions (snd (poll w modUrl maxRetries i)) = []"
proof (induction "maxRetries - i" arbitrary: i)
  case 0
  then have "\<not> i < maxRetries" by simp
  then show ?case by (simp add: poll_stop)
next
  case (Suc n)
  then have lt: "i < maxRetries" and n: "n = maxRetries - Suc i" by simp_all
  have nr: "\<not> ready (axios_get w i)" using Suc.prems lt by simp
  have "\<forall>k. Suc i \<le> k \<and> k < maxRetries \<longrightarrow> \<not> ready (axios_get w k)"
    using Suc.prems by simp
  with Suc.hyps(1) [OF n] have IH:
    "fst (poll w modUrl maxRetries (Suc i)) = Rejected (RetriesExhausted maxRetries)"
    "lookups (snd (poll w modUrl maxRetries (Suc i))) = replicate n (fetch_url modUrl)"
    "submissions (snd (poll w modUrl maxRetries (Suc i))) = []"
    using n by simp_all
  have rep: "replicate (maxRetries - i) (fetch_url modUrl) = fetch_url modUrl # replicate n (fetch_url modUrl)"
    using Suc.hyps(2) [symmetric] by simp
  show ?case
  proof (cases "axios_get w i")
    case (Inl err)
    show ?thesis using IH rep by (simp add: poll_error [OF lt Inl])
  next
    case (Inr d)
    with nr have f: "\<not> truthy (read_url d)" by simp
    show ?thesis using IH rep by (simp add: poll_retry [OF lt Inr f])
  qed
qed

lemma poll_first_ready:
  "i \<le> n \<Longrightarrow> n < maxRetries \<Longrightarrow>
   (\<forall>k. i \<le> k \<and> k < n \<longrightarrow> \<not> ready (axios_get w k)) \<Longrightarrow>
   axios_get w n = Inr d \<Longrightarrow> truthy (read_url d) \<Longrightarrow>
   fst (poll w modUrl maxRetries i) = Resolved d
   \<and> lookups (snd (poll w modUrl maxRetries i)) = replicate (Suc (n - i)) (fetch_url modUrl)
   \<and> submissions (snd (poll w modUrl maxRetries i)) = []"
proof (induction "n - i" arbitrary: i)
  case 0
  then have "i = n" by simp
  with 0 show ?case by (simp add: poll_hit)
next
  case (Suc m)
  then have lt: "i < n" and m: "m = n - Suc i" by simp_all
  then have ltm: "i < maxRetries" using Suc.prems by simp
  have nr: "\<not> ready (axios_get w i)" using Suc.prems lt by simp
  have "\<forall>k. Suc i \<le> k \<and> k < n \<longrightarrow> \<not> ready (axios_get w k)"
    using Suc.prems by simp
  with Suc.hyps(1) [OF m] Suc.prems lt have IH:
    "fst (poll w modUrl maxRetries (Suc i)) = Resolved d"
    "lookups (snd (poll w modUrl maxRetries (Suc i))) = replicate (Suc m) (fetch_url modUrl)"
    "submissions (snd (poll w modUrl maxRetries (Suc i))) = []"
    using m by simp_all
  have nm: "n - i = Suc m" using Suc.hyps(2) by simp
  show ?case
  proof (cases "axios_get w i")
    case (Inl err)
    show ?thesis using IH nm by (simp add: poll_error [OF ltm Inl])
  next
    case (Inr d')
    with nr have f: "\<not> truthy (read_url d')" by simp
    show ?thesis using IH nm by (simp add: poll_retry [OF ltm Inr f])
  qed
qed

lemma poll_responses:
  "i \<le> n \<Longrightarrow> n < maxRetries \<Longrightarrow>
   (\<forall>k. i \<le> k \<and> k < n \<longrightarrow> (\<exists>d'. axios_get w k = Inr d' \<and> \<not> truthy (read_url d'))) \<Longrightarrow>
   axios_get w n = Inr d \<Longrightarrow> truthy (read_url d) \<Longrightarrow>
   poll w modUrl maxRetries i =
     (Resolved d,
      concat (map (\<lambda>k. [Get (fetch_url modUrl), Log (Warning_retrying (k + 1)), Delay 30000]) [i..<n])
      @ [Get (fetch_url modUrl)])"
proof (induction "n - i" arbitrary: i)
  case 0
  then have "i = n" by simp
  with 0 show ?case by (simp add: poll_hit)
next
  case (Suc m)
  then have lt: "i < n" and m: "m = n - Suc i" by simp_all
  then have ltm: "i < maxRetries" using Suc.prems by simp
  from Suc.prems lt obtain d' where d': "axios_get w i = Inr d'" "\<not> truthy (read_url d')"
    by blast
  have "\<forall>k. Suc i \<le> k \<and> k < n \<longrightarrow> (\<exists>d'. axios_get w k = Inr d' \<and> \<not> truthy (read_url d'))"
    using Suc.prems by simp
  with Suc.hyps(1) [OF m] Suc.prems lt have IH:
    "poll w modUrl maxRetries (Suc i) =
     (Resolved d,
      concat (map (\<lambda>k. [Get (fetch_url modUrl), Log (Warning_retrying (k + 1)), Delay 30000]) [Suc i..<n])
      @ [Get (fetch_url modUrl)])"
    by simp
  have "[i..<n] = i # [Suc i..<n]" using lt by (simp add: upt_conv_Cons)
  then show ?case using IH by (simp add: poll_retry [OF ltm d'])
qed

lemma wait_first_ready:
  assumes "n < maxRetries" and "\<forall>k<n. \<not> ready (axios_get w k)"
    and "axios_get w n = Inr d" and "truthy (read_url d)"
  shows "fst (waitForValidFetch w modUrl maxRetries) = Resolved d"
    and "lookups (snd (waitForValidFetch w modUrl maxRetries)) = replicate (Suc n) (fetch_url modUrl)"
    and "submissions (snd (waitForValidFetch w modUrl maxRetries)) = []"
  using poll_first_ready [of 0 n maxRetries w d modUrl] assms
  by (simp_all add: waitForValidFetch_def)

section \<open>Facts about the handler\<close>

lemma lookups_append: "lookups (a @ b) = lookups a @ lookups b"
  by (induction a rule: lookups.induct) simp_all

lemma submissions_append: "submissions (a @ b) = submissions a @ submissions b"
  by (induction a rule: submissions.induct) simp_all

lemma handler_in_scope:
  "in_scope cfg w msg fullUrl modUrl \<Longrightarrow>
   handler cfg w msg =
     (fst (enroll cfg w fullUrl modUrl),
      [GetChat, Log Info_new_link, Log (Info_mod_url modUrl)] @ snd (enroll cfg w fullUrl modUrl))"
  by (auto simp: in_scope_def handler_def case_prod_beta split: sum.splits)

lemma enroll_resolves: "fst (enroll cfg w fullUrl modUrl) = Resolved ()"
  by (simp add: enroll_def case_prod_beta split: settled.splits prod.splits)

lemma enroll_rejected:
  "fst (waitForValidFetch w modUrl default_maxRetries) = Rejected err \<Longrightarrow>
   snd (enroll cfg w fullUrl modUrl) =
     snd (waitForValidFetch w modUrl default_maxRetries) @ [Log (Error_enrollment_failed err)]"
  by (cases "waitForValidFetch w modUrl default_maxRetries") (simp add: enroll_def)

lemma enroll_resolved:
  "fst (waitForValidFetch w modUrl default_maxRetries) = Resolved d \<Longrightarrow>
   snd (enroll cfg w fullUrl modUrl) =
     snd (waitForValidFetch w modUrl default_maxRetries) @ snd (submit cfg w fullUrl modUrl d)
     @ (case fst (submit cfg w fullUrl modUrl d) of
          Rejected err \<Rightarrow> [Log (Error_enrollment_failed err)]
        | Resolved u \<Rightarrow> [])"
  by (cases "waitForValidFetch w modUrl default_maxRetries")
     (simp add: enroll_def case_prod_beta split: settled.splits)

lemma submit_exists:
  "list_ex (\<lambda>e. description e = ITEM cfg) (item_list d) \<Longrightarrow>
   submit cfg w fullUrl modUrl d = (Resolved (), [Log (Warning_skipped (ITEM cfg))])"
  by (simp add: submit_def)

lemma submit_new:
  "\<not> list_ex (\<lambda>e. description e = ITEM cfg) (item_list d) \<Longrightarrow>
   submissions (snd (submit cfg w fullUrl modUrl d)) =
     [(add_url, \<lparr>p_description = ITEM cfg, p_force_creation_of_new_list = False,
                 p_mod_url = modUrl, p_read_url = read_url d\<rparr>)]"
  by (simp add: submit_def Let_def split: sum.splits)

lemma submit_new_ok:
  "\<not> list_ex (\<lambda>e. description e = ITEM cfg) (item_list d) \<Longrightarrow> axios_post w = Inr u \<Longrightarrow>
   submit cfg w fullUrl modUrl d =
     (Resolved (),
      [Post add_url \<lparr>p_description = ITEM cfg, p_force_creation_of_new_list = False,
                      p_mod_url = modUrl, p_read_url = read_url d\<rparr>,
       Log (Info_successful (ITEM cfg) fullUrl)])"
  by (simp add: submit_def)

section \<open>Facts about the example runs\<close>

lemma in_scope_never:
  "in_scope cfg0 w_never msg0 (str ''https://listmoz.com/#abc123'') (str ''abc123'')"
  by code_simp

lemma in_scope_new:
  "in_scope cfg0 w_new msg0 (str ''https://listmoz.com/#abc123'') (str ''abc123'')"
  by code_simp

lemma in_scope_enrolled:
  "in_scope cfg0 w_enrolled msg0 (str ''https://listmoz.com/#abc123'') (str ''abc123'')"
  by code_simp

lemma in_scope_bare:
  "in_scope cfg0 w_bare msg0 (str ''https://listmoz.com/#abc123'') (str ''abc123'')"
  by code_simp

lemma in_scope_post_fails:
  "in_scope cfg0 w_post_fails msg0 (str ''https://listmoz.com/#abc123'') (str ''abc123'')"
  by code_simp

lemma ready_data_truthy: "truthy (read_url ready_data)"
  by code_simp

section \<open>The claims\<close>

subsection \<open>C1: exhaustion of the retries\<close>

text \<open>
  Claim C1. When none of the first \<open>maxRetries\<close> lookup attempts is ready, each of them
  being a failed call or a response whose \<^verbatim>\<open>read_url\<close> is absent or empty (both kinds
  count alike), \<open>waitForValidFetch\<close> makes exactly \<open>maxRetries\<close> lookup calls and then
  throws the exhaustion error. The handler, which calls it with the default bound, then
  makes exactly that many lookup calls and no submission call, logs the exhaustion error
  and resolves.
\<close>

theorem C1_exhaustion:
  assumes "\<forall>i<maxRetries. \<not> ready (axios_get w i)"
  shows "fst (waitForValidFetch w modUrl maxRetries) = Rejected (RetriesExhausted maxRetries)
    \<and> lookups (snd (waitForValidFetch w modUrl maxRetries)) = replicate maxRetries (fetch_url modUrl)
    \<and> (maxRetries = default_maxRetries \<and> in_scope cfg w msg fullUrl modUrl \<longrightarrow>
         fst (handler cfg w msg) = Resolved ()
         \<and> lookups (snd (handler cfg w msg)) = replicate default_maxRetries (fetch_url modUrl)
         \<and> submissions (snd (handler cfg w msg)) = []
         \<and> last (snd (handler cfg w msg))
             = Log (Error_enrollment_failed (RetriesExhausted default_maxRetries)))"
proof -
  have p: "fst (waitForValidFetch w modUrl maxRetries) = Rejected (RetriesExhausted maxRetries)"
    "lookups (snd (waitForValidFetch w modUrl maxRetries)) = replicate maxRetries (fetch_url modUrl)"
    "submissions (snd (waitForValidFetch w modUrl maxRetries)) = []"
    using poll_exhausted [of 0 maxRetries w modUrl] assms
    by (simp_all add: waitForValidFetch_def)
  have "fst (handler cfg w msg) = Resolved ()
         \<and> lookups (snd (handler cfg w msg)) = replicate default_maxRetries (fetch_url modUrl)
         \<and> submissions (snd (handler cfg w msg)) = []
         \<and> last (snd (handler cfg w msg))
             = Log (Error_enrollment_failed (RetriesExhausted default_maxRetries))"
    if m: "maxRetries = default_maxRetries" and s: "in_scope cfg w msg fullUrl modUrl"
  proof -
    have e: "snd (enroll cfg w fullUrl modUrl) =
       snd (waitForValidFetch w modUrl default_maxRetries)
       @ [Log (Error_enrollment_failed (RetriesExhausted default_maxRetries))]"
      using p(1) m by (simp add: enroll_rejected)
    show ?thesis
      using p m by (simp add: handler_in_scope [OF s] enroll_resolves e lookups_append submissions_append)
  qed
  with p show ?thesis by blast
qed

text \<open>
  Witness for C1: the run in which the lookups fail by turns with an error and with a
  response without \<^verbatim>\<open>read_url\<close>.
\<close>

theorem C1_exhaustion_witness:
  "fst (waitForValidFetch w_never (str ''abc123'') default_maxRetries)
     = Rejected (RetriesExhausted default_maxRetries)
   \<and> length (lookups (snd (handler cfg0 w_never msg0))) = default_maxRetries
   \<and> submissions (snd (handler cfg0 w_never msg0)) = []
   \<and> fst (handler cfg0 w_never msg0) = Resolved ()"
proof -
  have h: "\<forall>i<default_maxRetries. \<not> ready (axios_get w_never i)"
    by (simp add: w_never_def)
  show ?thesis
    using C1_exhaustion [OF h, of "str ''abc123''" cfg0 msg0 "str ''https://listmoz.com/#abc123''"]
      in_scope_never
    by simp
qed

subsection \<open>C2: polling until the first ready response\<close>

text \<open>
  Claim C2. For \<open>N < maxRetries\<close>, when the first \<open>N\<close> lookups return responses whose
  \<^verbatim>\<open>read_url\<close> is absent or empty and the next one returns a response \<open>d\<close> with a
  non-empty \<^verbatim>\<open>read_url\<close>, \<open>waitForValidFetch\<close> makes exactly \<open>N + 1\<close> lookup calls, with
  a delay of 30000 ms after each of the first \<open>N\<close>, and returns \<open>d\<close>; the enrollment goes
  on with the check for an existing entry and the submission on exactly this \<open>d\<close>.
\<close>

theorem C2_poll_until_ready:
  assumes "N < maxRetries"
    and "\<forall>k<N. \<exists>d'. axios_get w k = Inr d' \<and> \<not> truthy (read_url d')"
    and "axios_get w N = Inr d" and "truthy (read_url d)"
  shows "waitForValidFetch w modUrl maxRetries =
           (Resolved d,
            concat (map (\<lambda>k. [Get (fetch_url modUrl), Log (Warning_retrying (k + 1)), Delay 30000])
                        [0..<N])
            @ [Get (fetch_url modUrl)])
    \<and> length (lookups (snd (waitForValidFetch w modUrl maxRetries))) = N + 1
    \<and> (maxRetries = default_maxRetries \<longrightarrow>
         snd (enroll cfg w fullUrl modUrl) =
           snd (waitForValidFetch w modUrl maxRetries) @ snd (submit cfg w fullUrl modUrl d)
           @ (case fst (submit cfg w fullUrl modUrl d) of
                Rejected err \<Rightarrow> [Log (Error_enrollment_failed err)]
              | Resolved u \<Rightarrow> []))"
proof -
  have tr: "waitForValidFetch w modUrl maxRetries =
           (Resolved d,
            concat (map (\<lambda>k. [Get (fetch_url modUrl), Log (Warning_retrying (k + 1)), Delay 30000])
                        [0..<N])
            @ [Get (fetch_url modUrl)])"
    using poll_responses [of 0 N maxRetries w d modUrl] assms
    by (simp add: waitForValidFetch_def)
  have nr: "\<forall>k<N. \<not> ready (axios_get w k)"
    using assms(2) by fastforce
  have n: "length (lookups (snd (waitForValidFetch w modUrl maxRetries))) = N + 1"
    using wait_first_ready(2) [OF assms(1) nr assms(3,4)] by simp
  have "snd (enroll cfg w fullUrl modUrl) =
           snd (waitForValidFetch w modUrl maxRetries) @ snd (submit cfg w fullUrl modUrl d)
           @ (case fst (submit cfg w fullUrl modUrl d) of
                Rejected err \<Rightarrow> [Log (Error_enrollment_failed err)]
              | Resolved u \<Rightarrow> [])"
    if "maxRetries = default_maxRetries"
    using that tr enroll_resolved [of w modUrl d cfg fullUrl] by simp
  with tr n show ?thesis by blast
qed

text \<open>
  Witness for C2: two responses with an empty \<^verbatim>\<open>read_url\<close>, then a ready one.
\<close>

theorem C2_poll_until_ready_witness:
  "fst (waitForValidFetch w_third (str ''abc123'') default_maxRetries) = Resolved ready_data
   \<and> length (lookups (snd (waitForValidFetch w_third (str ''abc123'') default_maxRetries))) = 3
   \<and> snd (enroll cfg0 w_third (str ''https://listmoz.com/#abc123'') (str ''abc123'')) =
       snd (waitForValidFetch w_third (str ''abc123'') default_maxRetries)
       @ snd (submit cfg0 w_third (str ''https://listmoz.com/#abc123'') (str ''abc123'') ready_data)
       @ (case fst (submit cfg0 w_third (str ''https://listmoz.com/#abc123'') (str ''abc123'')
                      ready_data) of
            Rejected err \<Rightarrow> [Log (Error_enrollment_failed err)]
          | Resolved u \<Rightarrow> [])"
proof -
  have h1: "2 < default_maxRetries" by (simp add: default_maxRetries_def)
  have h2: "\<forall>k<2. \<exists>d'. axios_get w_third k = Inr d' \<and> \<not> truthy (read_url d')"
    by (simp add: w_third_def not_ready_data_def)
  have h3: "axios_get w_third 2 = Inr ready_data" by (simp add: w_third_def)
  note t = C2_poll_until_ready [OF h1 h2 h3 ready_data_truthy,
      of "str ''abc123''" cfg0 "str ''https://listmoz.com/#abc123''"]
  from t have a: "fst (waitForValidFetch w_third (str ''abc123'') default_maxRetries)
                  = Resolved ready_data"
    by simp
  from t have b: "length (lookups (snd (waitForValidFetch w_third (str ''abc123'') default_maxRetries)))
                  = 2 + 1"
    by blast
  from t have c: "snd (enroll cfg0 w_third (str ''https://listmoz.com/#abc123'') (str ''abc123'')) =
       snd (waitForValidFetch w_third (str ''abc123'') default_maxRetries)
       @ snd (submit cfg0 w_third (str ''https://listmoz.com/#abc123'') (str ''abc123'') ready_data)
       @ (case fst (submit cfg0 w_third (str ''https://listmoz.com/#abc123'') (str ''abc123'')
                      ready_data) of
            Rejected err \<Rightarrow> [Log (Error_enrollment_failed err)]
          | Resolved u \<Rightarrow> [])"
    by blast
  from a b c show ?thesis by simp
qed

subsection \<open>C3: one submission for a new item\<close>

text \<open>
  Claim C3. For an in-scope message, when the polling ends with the ready response \<open>d\<close>
  and no entry of its item list has a description equal to the configured item, the
  handler makes exactly one submission call; its body has the configured item as
  \<^verbatim>\<open>description\<close>, \<^verbatim>\<open>force_creation_of_new_list\<close> false, the extracted identifier as
  \<^verbatim>\<open>mod_url\<close> and the \<^verbatim>\<open>read_url\<close> of \<open>d\<close> as \<^verbatim>\<open>read_url\<close>.
\<close>

theorem C3_submits_once:
  assumes "in_scope cfg w msg fullUrl modUrl"
    and "n < default_maxRetries" and "\<forall>k<n. \<not> ready (axios_get w k)"
    and "axios_get w n = Inr d" and "truthy (read_url d)"
    and "\<forall>e\<in>set (item_list d). description e \<noteq> ITEM cfg"
  shows "submissions (snd (handler cfg w msg)) =
           [(add_url, \<lparr>p_description = ITEM cfg, p_force_creation_of_new_list = False,
                       p_mod_url = modUrl, p_read_url = read_url d\<rparr>)]"
proof -
  note r = wait_first_ready [OF assms(2-5), of modUrl]
  have new: "\<not> list_ex (\<lambda>e. description e = ITEM cfg) (item_list d)"
    using assms(6) by (simp add: list_ex_iff)
  have "submissions (snd (enroll cfg w fullUrl modUrl)) =
          submissions (snd (submit cfg w fullUrl modUrl d))"
    using r(3) by (simp add: enroll_resolved [OF r(1)] submissions_append split: settled.splits)
  then show ?thesis
    by (simp add: handler_in_scope [OF assms(1)] submit_new [OF new])
qed

text \<open>
  Witness for C3: a failed lookup, then a ready response that lists another item.
\<close>

theorem C3_submits_once_witness:
  "submissions (snd (handler cfg0 w_new msg0)) =
     [(add_url, \<lparr>p_description = str ''Furkan'', p_force_creation_of_new_list = False,
                 p_mod_url = str ''abc123'',
                 p_read_url = Some (str ''https://listmoz.com/#r1'')\<rparr>)]"
proof -
  have h1: "1 < default_maxRetries" by (simp add: default_maxRetries_def)
  have h2: "\<forall>k<1. \<not> ready (axios_get w_new k)" by (simp add: w_new_def)
  have h3: "axios_get w_new 1 = Inr ready_data" by (simp add: w_new_def)
  have h4: "\<forall>e\<in>set (item_list ready_data). description e \<noteq> ITEM cfg0"
    by (simp add: item_list_def ready_data_def cfg0_def str_def)
  show ?thesis
    using C3_submits_once [OF in_scope_new h1 h2 h3 ready_data_truthy h4]
    by (simp add: cfg0_def ready_data_def)
qed

subsection \<open>C4: no submission for an item already there\<close>

text \<open>
  Claim C4. For an in-scope message, when the polling ends with the ready response \<open>d\<close>
  and some entry of its item list has a description equal to the configured item, the
  handler makes no submission call: after the polling it only logs that the enrollment
  is skipped, and it resolves, with no error logged.
\<close>

theorem C4_skips_when_enrolled:
  assumes "in_scope cfg w msg fullUrl modUrl"
    and "n < default_maxRetries" and "\<forall>k<n. \<not> ready (axios_get w k)"
    and "axios_get w n = Inr d" and "truthy (read_url d)"
    and "\<exists>e\<in>set (item_list d). description e = ITEM cfg"
  shows "handler cfg w msg =
           (Resolved (),
            [GetChat, Log Info_new_link, Log (Info_mod_url modUrl)]
            @ snd (waitForValidFetch w modUrl default_maxRetries)
            @ [Log (Warning_skipped (ITEM cfg))])
    \<and> submissions (snd (handler cfg w msg)) = []"
proof -
  note r = wait_first_ready [OF assms(2-5), of modUrl]
  have ex: "list_ex (\<lambda>e. description e = ITEM cfg) (item_list d)"
    using assms(6) by (simp add: list_ex_iff)
  have e: "snd (enroll cfg w fullUrl modUrl) =
          snd (waitForValidFetch w modUrl default_maxRetries) @ [Log (Warning_skipped (ITEM cfg))]"
    by (simp add: enroll_resolved [OF r(1)] submit_exists [OF ex])
  show ?thesis
    using r(3) by (simp add: handler_in_scope [OF assms(1)] enroll_resolves e submissions_append)
qed

text \<open>
  Witness for C4: the first response is ready and lists the configured item.
\<close>

theorem C4_skips_when_enrolled_witness:
  "submissions (snd (handler cfg0 w_enrolled msg0)) = []
   \<and> fst (handler cfg0 w_enrolled msg0) = Resolved ()"
proof -
  have h1: "0 < default_maxRetries" by (simp add: default_maxRetries_def)
  have h2: "\<forall>k<0. \<not> ready (axios_get w_enrolled k)" by simp
  have h3: "axios_get w_enrolled 0 = Inr enrolled_data" by (simp add: w_enrolled_def)
  have h4: "truthy (read_url enrolled_data)" by code_simp
  have h5: "\<exists>e\<in>set (item_list enrolled_data). description e = ITEM cfg0"
    by (simp add: item_list_def enrolled_data_def cfg0_def)
  note t = C4_skips_when_enrolled [OF in_scope_enrolled h1 h2 h3 h4 h5]
  from t have a: "submissions (snd (handler cfg0 w_enrolled msg0)) = []" by blast
  from t have b: "fst (handler cfg0 w_enrolled msg0) = Resolved ()" by simp
  from a b show ?thesis by simp
qed

subsection \<open>C5: the identifier and the full URL\<close>

text \<open>
  Claim C5. When the body is some text \<open>pre\<close>, the prefix, an identifier \<open>ident\<close>, a space
  and trailing text, extraction returns the prefix followed by \<open>ident\<close> as the full URL
  and \<open>ident\<close> as the identifier. The identifier is read as a non-empty string without
  \<open>#\<close> and without a space that does not end with white space, and the prefix as its
  first occurrence in the body (\<open>pre\<close> does not contain it). In particular the body
  \<^verbatim>\<open>check this out https://listmoz.com/#abc123 thanks\<close> gives the identifier
  \<^verbatim>\<open>abc123\<close> and the full URL \<^verbatim>\<open>https://listmoz.com/#abc123\<close>.
\<close>

theorem C5_extract_identifier:
  assumes "\<not> includes_str pre prefix"
    and "ident \<noteq> []"
    and "hash \<notin> set ident"
    and "space \<notin> set ident"
    and "\<not> is_white_space (last ident)"
  shows "extract_link (pre @ prefix @ ident @ space # rest) = Some (prefix @ ident, ident)
         \<and> extract_link (str ''check this out https://listmoz.com/#abc123 thanks'')
           = Some (str ''https://listmoz.com/#abc123'', str ''abc123'')"
proof -
  let ?body = "pre @ prefix @ ident @ space # rest"
  have first: "\<forall>j<length pre. \<not> starts_with (drop j ?body) prefix"
    using prefix_no_overlap [OF assms(1)] by blast
  have inc: "includes_str ?body prefix" using first by (rule includes_first)
  have ne: "prefix @ ident \<noteq> []" using assms(2) by simp
  have h: "\<not> is_white_space (hd (prefix @ ident))"
    by (subst prefix_hd) (simp add: not_ws_h)
  have "last (prefix @ ident) = last ident" using assms(2) by simp
  with assms(5) have l: "\<not> is_white_space (last (prefix @ ident))" by simp
  from ne h l have "trim (prefix @ ident) = prefix @ ident" by (rule trim_clean)
  with first assms(4) have cand: "candidate_link ?body = prefix @ ident"
    by (simp add: candidate_link_space)
  have "at_index (split hash (prefix @ ident)) 1 = Some ident"
    using assms(3) by (simp add: split_prefix at_index_def)
  with inc cand assms(2) have "extract_link ?body = Some (prefix @ ident, ident)"
    by (simp add: extract_link_def)
  with extract_scenario show ?thesis by simp
qed

text \<open>
  Witness for C5: the body \<^verbatim>\<open>hey https://listmoz.com/#k3y join\<close>.
\<close>

theorem C5_extract_identifier_witness:
  "extract_link (str ''hey '' @ prefix @ str ''k3y'' @ space # str ''join'')
     = Some (prefix @ str ''k3y'', str ''k3y'')"
proof -
  have h1: "\<not> includes_str (str ''hey '') prefix" by code_simp
  have h2: "str ''k3y'' \<noteq> []" by (simp add: str_def)
  have h3: "hash \<notin> set (str ''k3y'')" by (simp add: str_def hash_def)
  have h4: "space \<notin> set (str ''k3y'')" by (simp add: str_def space_def)
  have h5: "\<not> is_white_space (last (str ''k3y''))"
    by (simp add: str_def is_white_space_def white_space_def)
  show ?thesis
    using C5_extract_identifier [OF h1 h2 h3 h4 h5, of "str ''join''"] by simp
qed

subsection \<open>C6: where the candidate link ends\<close>




subsection \<open>C7: which failures the handler catches\<close>

text \<open>
  The awaits inside the \<^verbatim>\<open>try\<close> block of lines 45 to 69 are guarded: whenever the chat
  name is resolved the handler resolves, and when the polling or the submission call
  throws, the last thing the run does is to log that error.
\<close>

lemma enrollment_failures_caught:
  assumes "getChat w = Inr c"
  shows "fst (handler cfg w msg) = Resolved ()
    \<and> (in_scope cfg w msg fullUrl modUrl \<longrightarrow>
         (\<forall>err. fst (waitForValidFetch w modUrl default_maxRetries) = Rejected err \<longrightarrow>
                last (snd (handler cfg w msg)) = Log (Error_enrollment_failed err))
         \<and> (\<forall>d err. fst (waitForValidFetch w modUrl default_maxRetries) = Resolved d
                    \<and> fst (submit cfg w fullUrl modUrl d) = Rejected err \<longrightarrow>
                last (snd (handler cfg w msg)) = Log (Error_enrollment_failed err)))"
proof -
  have "fst (handler cfg w msg) = Resolved ()"
    using assms enroll_resolves
    by (simp add: handler_def case_prod_beta split: option.splits)
  moreover have "last (snd (handler cfg w msg)) = Log (Error_enrollment_failed err)"
    if "in_scope cfg w msg fullUrl modUrl"
      and "fst (waitForValidFetch w modUrl default_maxRetries) = Rejected err" for err
    using that by (simp add: handler_in_scope enroll_rejected)
  moreover have "last (snd (handler cfg w msg)) = Log (Error_enrollment_failed err)"
    if "in_scope cfg w msg fullUrl modUrl"
      and "fst (waitForValidFetch w modUrl default_maxRetries) = Resolved d"
      and "fst (submit cfg w fullUrl modUrl d) = Rejected err" for d err
    using that by (simp add: handler_in_scope enroll_resolved)
  ultimately show ?thesis by blast
qed

text \<open>
  Claim C7. Every failure that arises while a message is processed, the resolution of
  the chat name included, is to be caught inside the handler and turned into log output,
  so that no error leaves the handler. The code does not do so for the chat name:
  \<^verbatim>\<open>await msg.getChat()\<close> at line 30 is the one await left outside the \<^verbatim>\<open>try\<close> block.
  For the group message \<open>msg0\<close> in a run where that call fails, the handler makes the
  call, logs nothing, and its promise is rejected with the error of the call.
\<close>

theorem C7_chat_failure_escapes:
  "handler cfg0 w_chat_fails msg0 = (Rejected (ClientError (str ''Evaluation failed'')), [GetChat])"
  by code_simp

subsection \<open>C8: messages that are not from a group\<close>

text \<open>
  Claim C8. For every message whose origin identifier does not contain \<^verbatim>\<open>@g.us\<close>, the
  handler returns at once: it resolves with an empty trace, so nothing is extracted, the
  chat name is not asked for, and no other call is made.
\<close>

theorem C8_private_message_ignored:
  "\<not> includes_str (from_id msg) (str ''@g.us'') \<Longrightarrow> handler cfg w msg = (Resolved (), [])"
  by (simp add: handler_def)

text \<open>
  Witness for C8: a message from a private chat, \<^verbatim>\<open>905551112233@c.us\<close>.
\<close>

theorem C8_private_message_ignored_witness:
  "handler cfg0 w_never msg_private = (Resolved (), [])"
proof -
  have h: "\<not> includes_str (from_id msg_private) (str ''@g.us'')" by code_simp
  show ?thesis using C8_private_message_ignored [OF h] by simp
qed

subsection \<open>C9: no identifier after the prefix\<close>

text \<open>
  Claim C9. For every message that passes the group and the chat name filters and whose
  body contains the prefix, when the second segment of the candidate link split on
  \<open>#\<close> is missing or empty, extraction returns nothing and the handler returns after
  the resolution of the chat name: no lookup call and no submission call is made.
\<close>

theorem C9_no_fragment_ignored:
  assumes "includes_str (from_id msg) (str ''@g.us'')"
    and "getChat w = Inr c" and "name c = TARGET_CHAT cfg"
    and "includes_str (body msg) prefix"
    and "\<not> truthy (at_index (split hash (candidate_link (body msg))) 1)"
  shows "extract_link (body msg) = None
    \<and> handler cfg w msg = (Resolved (), [GetChat])
    \<and> lookups (snd (handler cfg w msg)) = []
    \<and> submissions (snd (handler cfg w msg)) = []"
proof -
  have "extract_link (body msg) = None"
    using assms(4,5) by (simp add: extract_link_def)
  then show ?thesis using assms(1-3) by (simp add: handler_def)
qed

text \<open>
  Witness for C9: the body \<^verbatim>\<open>new list https://listmoz.com/# soon\<close>.
\<close>

theorem C9_no_fragment_ignored_witness:
  "extract_link (body msg_no_fragment) = None
   \<and> handler cfg0 w_never msg_no_fragment = (Resolved (), [GetChat])"
proof -
  have h1: "includes_str (from_id msg_no_fragment) (str ''@g.us'')" by code_simp
  have h2: "getChat w_never = Inr chat0" by (simp add: w_never_def)
  have h3: "name chat0 = TARGET_CHAT cfg0" by (simp add: chat0_def cfg0_def)
  have h4: "includes_str (body msg_no_fragment) prefix" by code_simp
  have h5: "\<not> truthy (at_index (split hash (candidate_link (body msg_no_fragment))) 1)"
    by code_simp
  show ?thesis using C9_no_fragment_ignored [OF h1 h2 h3 h4 h5] by simp
qed

subsection \<open>C10: a ready response without the items field\<close>

text \<open>
  Claim C10. For an in-scope message, when the polling ends with a ready response \<open>d\<close>
  that has no \<^verbatim>\<open>items\<close> field, the item list scanned is empty and the handler makes
  exactly one submission call, with the same body as in C3; when that call succeeds the
  run ends with the line that reports the enrollment, with no error and no skip logged
  after the polling.
\<close>

theorem C10_absent_items:
  assumes "in_scope cfg w msg fullUrl modUrl"
    and "n < default_maxRetries" and "\<forall>k<n. \<not> ready (axios_get w k)"
    and "axios_get w n = Inr d" and "truthy (read_url d)"
    and "items d = None"
  shows "item_list d = []
    \<and> submissions (snd (handler cfg w msg)) =
           [(add_url, \<lparr>p_description = ITEM cfg, p_force_creation_of_new_list = False,
                       p_mod_url = modUrl, p_read_url = read_url d\<rparr>)]
    \<and> (axios_post w = Inr () \<longrightarrow>
         handler cfg w msg =
           (Resolved (),
            [GetChat, Log Info_new_link, Log (Info_mod_url modUrl)]
            @ snd (waitForValidFetch w modUrl default_maxRetries)
            @ [Post add_url \<lparr>p_description = ITEM cfg, p_force_creation_of_new_list = False,
                              p_mod_url = modUrl, p_read_url = read_url d\<rparr>,
               Log (Info_successful (ITEM cfg) fullUrl)]))"
proof -
  note r = wait_first_ready [OF assms(2-5), of modUrl]
  have il: "item_list d = []" using assms(6) by (simp add: item_list_def)
  then have new: "\<not> list_ex (\<lambda>e. description e = ITEM cfg) (item_list d)" by simp
  have "submissions (snd (enroll cfg w fullUrl modUrl)) =
          submissions (snd (submit cfg w fullUrl modUrl d))"
    using r(3) by (simp add: enroll_resolved [OF r(1)] submissions_append split: settled.splits)
  then have s: "submissions (snd (handler cfg w msg)) =
           [(add_url, \<lparr>p_description = ITEM cfg, p_force_creation_of_new_list = False,
                       p_mod_url = modUrl, p_read_url = read_url d\<rparr>)]"
    by (simp add: handler_in_scope [OF assms(1)] submit_new [OF new])
  have "handler cfg w msg =
           (Resolved (),
            [GetChat, Log Info_new_link, Log (Info_mod_url modUrl)]
            @ snd (waitForValidFetch w modUrl default_maxRetries)
            @ [Post add_url \<lparr>p_description = ITEM cfg, p_force_creation_of_new_list = False,
                              p_mod_url = modUrl, p_read_url = read_url d\<rparr>,
               Log (Info_successful (ITEM cfg) fullUrl)])"
    if ok: "axios_post w = Inr ()"
    by (simp add: handler_in_scope [OF assms(1)] enroll_resolves
        enroll_resolved [OF r(1)] submit_new_ok [OF new ok])
  with il s show ?thesis by blast
qed

text \<open>
  Witness for C10: the first response is ready and has no \<^verbatim>\<open>items\<close> field.
\<close>

theorem C10_absent_items_witness:
  "item_list bare_data = []
   \<and> submissions (snd (handler cfg0 w_bare msg0)) =
     [(add_url, \<lparr>p_description = str ''Furkan'', p_force_creation_of_new_list = False,
                 p_mod_url = str ''abc123'',
                 p_read_url = Some (str ''https://listmoz.com/#r1'')\<rparr>)]"
proof -
  have h1: "0 < default_maxRetries" by (simp add: default_maxRetries_def)
  have h2: "\<forall>k<0. \<not> ready (axios_get w_bare k)" by simp
  have h3: "axios_get w_bare 0 = Inr bare_data" by (simp add: w_bare_def)
  have h4: "truthy (read_url bare_data)" by code_simp
  have h5: "items bare_data = None" by (simp add: bare_data_def)
  show ?thesis
    using C10_absent_items [OF in_scope_bare h1 h2 h3 h4 h5]
    by (simp add: cfg0_def bare_data_def)
qed

end
